theory Spec2Isabelle
  imports Main "HOL-Library.AList" "HOL-Library.Word"
begin

section \<open>The XML tree\<close>

text \<open>
  \<^verbatim>\<open>Plist.ts\<close> walks the DOM tree that the XML parser returns. A node of that tree is
  an element (with a tag name and child nodes), a text run, a CDATA section or a comment.
  The four accessors below are the DOM properties the source reads: \<open>nodeType\<close>,
  \<open>nodeName\<close>, \<open>nodeValue\<close> (\<open>null\<close>, here \<open>None\<close>, for an element) and
  \<open>childNodes\<close>. Character data nodes have no child list in the DOM; the source reads
  \<open>childNodes\<close> only behind \<open>isEmptyNode\<close>, which treats a missing list and an empty
  list alike, so the model gives them the empty list.

  Strings are lists of characters, one \<open>char\<close> per UTF-16 code unit, which restricts the
  model to code units below 256.
\<close>

datatype xnode =
    Element string "xnode list"
  | Text string
  | CDATASection string
  | Comment string

abbreviation (input) ELEMENT_NODE :: nat where "ELEMENT_NODE \<equiv> 1"
abbreviation (input) TEXT_NODE :: nat where "TEXT_NODE \<equiv> 3"
abbreviation (input) CDATA_NODE :: nat where "CDATA_NODE \<equiv> 4"
abbreviation (input) COMMENT_NODE :: nat where "COMMENT_NODE \<equiv> 8"

fun nodeType :: "xnode \<Rightarrow> nat" where
  "nodeType (Element nm cs) = ELEMENT_NODE"
| "nodeType (Text s) = TEXT_NODE"
| "nodeType (CDATASection s) = CDATA_NODE"
| "nodeType (Comment s) = COMMENT_NODE"

fun nodeName :: "xnode \<Rightarrow> string" where
  "nodeName (Element nm cs) = nm"
| "nodeName (Text s) = ''#text''"
| "nodeName (CDATASection s) = ''#cdata-section''"
| "nodeName (Comment s) = ''#comment''"

fun nodeValue :: "xnode \<Rightarrow> string option" where
  "nodeValue (Element nm cs) = None"
| "nodeValue (Text s) = Some s"
| "nodeValue (CDATASection s) = Some s"
| "nodeValue (Comment s) = Some s"

fun childNodes :: "xnode \<Rightarrow> xnode list" where
  "childNodes (Element nm cs) = cs"
| "childNodes (Text s) = []"
| "childNodes (CDATASection s) = []"
| "childNodes (Comment s) = []"

section \<open>JavaScript values and errors\<close>

text \<open>
  The parser returns an untyped JavaScript value. A Number is a double: \<open>NumInt z\<close> is
  the double whose value is the integer \<open>z\<close>, \<open>NegZero\<close> is \<open>-0\<close>, and
  \<open>ParseFloat s\<close> is whatever \<open>parseFloat\<close> makes of \<open>s\<close>, which is not
  interpreted. Likewise \<open>JDate a\<close> is \<open>new Date(a)\<close> for the argument \<open>a\<close> (a
  string or \<open>null\<close>). An object is the list of its own properties in the order in which
  JavaScript enumerates them; its prototype is the one of \<open>{}\<close>.
\<close>

datatype jsnumber = NaN | NumInt int | NegZero | PosInfinity | NegInfinity | ParseFloat string

type_synonym byte = "8 word"

datatype jsval =
    JNull
  | JUndefined
  | JBool bool
  | JString string
  | JNumber jsnumber
  | JBuffer "byte list"
  | JDate "string option"
  | JArray "jsval list"
  | JObject "(string \<times> jsval) list"

text \<open>
  What ends a call without a value. The first three are thrown by the program: the error
  of the \<open>invariant\<close> package, a plain \<open>Error\<close>, and a \<open>TypeError\<close> of the
  language. \<open>Unmodelled\<close> is no error of the program: it marks a run that has left
  what this theory describes (the prototype of an object has been replaced, or a text is
  needed that is not computed here), and nothing is said about what the program does
  from there.
\<close>

datatype error =
    InvariantViolation string
  | Error string
  | TypeError string
  | Unmodelled string

text \<open>
  \<open>invariant(condition, format)\<close> of the \<open>invariant\<close> package throws when the
  condition is false. Its second argument is a format: every \<open>%s\<close> in it is replaced by
  the next of the further arguments, and \<open>Plist.ts\<close> passes none, so by \<open>undefined\<close>.
\<close>

fun format_message :: "string \<Rightarrow> string" where
  "format_message [] = []"
| "format_message (c # r) =
     (case r of
        [] \<Rightarrow> [c]
      | d # r' \<Rightarrow> if c = CHR ''%'' \<and> d = CHR ''s'' then ''undefined'' @ format_message r'
                  else c # format_message r)"

definition invariant :: "bool \<Rightarrow> string \<Rightarrow> error + unit" where
  "invariant condition format =
     (if condition then Inr () else Inl (InvariantViolation (format_message format)))"

text \<open>
  String conversion, as \<open>+\<close> with a string applies it to its other operand. It throws a
  TypeError for an object that cannot be made a primitive: a plain object whose own
  property \<open>toString\<close> hides the inherited method (no value of this program is a
  function), and an array with such an element, since the text of an array joins the
  texts of its elements (empty for \<open>null\<close> and \<open>undefined\<close>). The conversion of a
  number, a buffer or a date never throws; its text is not computed here, which is the
  result \<open>None\<close>.
\<close>

fun join_texts :: "(error + string option) list \<Rightarrow> error + string option" where
  "join_texts [] = Inr (Some [])"
| "join_texts [t] = t"
| "join_texts (t # ts) =
     (case t of
        Inl e \<Rightarrow> Inl e
      | Inr a \<Rightarrow>
          (case join_texts ts of
             Inl e \<Rightarrow> Inl e
           | Inr b \<Rightarrow>
               (case (a, b) of
                  (Some x, Some y) \<Rightarrow> Inr (Some (x @ '','' @ y))
                | _ \<Rightarrow> Inr None)))"

fun ToString :: "jsval \<Rightarrow> error + string option" where
  "ToString JNull = Inr (Some ''null'')"
| "ToString JUndefined = Inr (Some ''undefined'')"
| "ToString (JBool b) = Inr (Some (if b then ''true'' else ''false''))"
| "ToString (JString s) = Inr (Some s)"
| "ToString (JNumber n) = Inr None"
| "ToString (JBuffer bs) = Inr None"
| "ToString (JDate a) = Inr None"
| "ToString (JArray xs) =
     join_texts (map (\<lambda>x. if x = JNull \<or> x = JUndefined then Inr (Some []) else ToString x) xs)"
| "ToString (JObject ps) =
     (if ''toString'' \<in> fst ` set ps
      then Inl (TypeError ''Cannot convert object to primitive value'')
      else Inr (Some ''[object Object]''))"

text \<open>The text where the program goes on to use it: as a property name or in the message
  of an error it throws.\<close>

definition string_of :: "jsval \<Rightarrow> error + string" where
  "string_of v =
     (case ToString v of
        Inl e \<Rightarrow> Inl e
      | Inr None \<Rightarrow> Inl (Unmodelled ''text of a number, buffer or date'')
      | Inr (Some s) \<Rightarrow> Inr s)"

text \<open>\<open>invariant\<close> with a message built from such a text: when the text is not computed
  and the condition holds, the message is dropped and nothing is lost.\<close>

definition invariant_text :: "bool \<Rightarrow> string option \<Rightarrow> error + unit" where
  "invariant_text condition message =
     (case message of
        Some m \<Rightarrow> invariant condition m
      | None \<Rightarrow> if condition then Inr () else Inl (Unmodelled ''text of a number, buffer or date''))"

text \<open>The text of a \<open>nodeValue\<close>, a string or \<open>null\<close>.\<close>

fun nullable_text :: "string option \<Rightarrow> string" where
  "nullable_text None = ''null''"
| "nullable_text (Some s) = s"

section \<open>Runtime functions the source calls\<close>

subsection \<open>White space\<close>

text \<open>The characters \<open>\s\<close> matches, which are also the ones \<open>parseInt\<close> skips: tab,
  line feed, vertical tab, form feed, carriage return, space and no-break space (the ones
  below 256).\<close>

definition is_space :: "char \<Rightarrow> bool" where
  "is_space c = ((of_char c :: nat) \<in> {9, 10, 11, 12, 13, 32, 160})"

text \<open>\<open>s.replace(/\s+/g, '')\<close>\<close>

definition replace_ws :: "string \<Rightarrow> string" where
  "replace_ws s = filter (\<lambda>c. \<not> is_space c) s"

subsection \<open>parseInt\<close>

definition is_digit :: "char \<Rightarrow> bool" where
  "is_digit c = (48 \<le> (of_char c :: nat) \<and> (of_char c :: nat) \<le> 57)"

definition digits_val :: "string \<Rightarrow> nat" where
  "digits_val ds = foldl (\<lambda>a c. 10 * a + (of_char c - 48)) 0 ds"

text \<open>
  The double nearest to a natural number, ties to the even mantissa; \<open>None\<close> is
  infinity. Below \<open>2^53\<close> every integer is a double. Above, with \<open>e\<close> the number of
  bits beyond 53, the number is rounded to a multiple of \<open>2^e\<close>.
\<close>

function bit_length :: "nat \<Rightarrow> nat" where
  "bit_length n = (if n = 0 then 0 else Suc (bit_length (n div 2)))"
  by pat_completeness auto
termination
  by (relation "measure id") simp_all

definition to_double :: "nat \<Rightarrow> nat option" where
  "to_double n =
     (if n < 2 ^ 53 then Some n
      else let e = bit_length n - 53;
               q = n div 2 ^ e;
               r = n mod 2 ^ e;
               m = (if 2 ^ e < 2 * r \<or> (2 * r = 2 ^ e \<and> odd q) then q + 1 else q) * 2 ^ e
           in if m < 2 ^ 1024 then Some m else None)"

text \<open>\<open>parseInt(s, 10)\<close>: skip leading white space, take an optional sign, then the longest
  run of decimal digits; no digit gives \<open>NaN\<close>, anything after the digits is ignored. The
  result is the double nearest to the integer read.\<close>

definition parseInt :: "string \<Rightarrow> jsnumber" where
  "parseInt s =
     (let t = dropWhile is_space s;
          neg = (case t of c # _ \<Rightarrow> c = CHR ''-'' | [] \<Rightarrow> False);
          u = (case t of c # r \<Rightarrow> (if c = CHR ''-'' \<or> c = CHR ''+'' then r else t) | [] \<Rightarrow> t);
          z = takeWhile is_digit u
      in if z = [] then NaN
         else (case to_double (digits_val z) of
                 None \<Rightarrow> if neg then NegInfinity else PosInfinity
               | Some m \<Rightarrow> if neg then (if m = 0 then NegZero else NumInt (- int m))
                           else NumInt (int m)))"

subsection \<open>Base64\<close>

text \<open>
  \<open>Buffer.from(text, 'base64')\<close> and \<open>buffer.toString('base64')\<close> belong to the runtime.
  The decoder is the forgiving one of Node.js: it stops at the first \<open>=\<close>, skips every
  character outside the alphabet (the URL-safe \<open>-\<close> and \<open>_\<close> count as \<open>+\<close> and
  \<open>/\<close>), turns each full group of four characters into three bytes and a trailing group
  of two or three characters into one or two bytes. The encoder is the standard one, with
  padding.
\<close>

definition unbase64 :: "char \<Rightarrow> nat option" where
  "unbase64 c =
     (let x = (of_char c :: nat) in
      if 65 \<le> x \<and> x \<le> 90 then Some (x - 65)
      else if 97 \<le> x \<and> x \<le> 122 then Some (x - 71)
      else if 48 \<le> x \<and> x \<le> 57 then Some (x + 4)
      else if x = 43 \<or> x = 45 then Some 62
      else if x = 47 \<or> x = 95 then Some 63
      else None)"

fun decode_sextets :: "nat list \<Rightarrow> nat list" where
  "decode_sextets (a # b # c # d # r) =
     (a * 4 + b div 16) # ((b mod 16) * 16 + c div 4) # ((c mod 4) * 64 + d) # decode_sextets r"
| "decode_sextets [a, b, c] = [a * 4 + b div 16, (b mod 16) * 16 + c div 4]"
| "decode_sextets [a, b] = [a * 4 + b div 16]"
| "decode_sextets [a] = []"
| "decode_sextets [] = []"

definition base64_sextets :: "string \<Rightarrow> nat list" where
  "base64_sextets s = List.map_filter unbase64 (takeWhile (\<lambda>c. c \<noteq> CHR ''='') s)"

definition base64_decode :: "string \<Rightarrow> byte list" where
  "base64_decode s = map of_nat (decode_sextets (base64_sextets s))"

definition base64_char :: "nat \<Rightarrow> char" where
  "base64_char n =
     (if n < 26 then char_of (n + 65)
      else if n < 52 then char_of (n + 71)
      else if n < 62 then char_of (n - 4)
      else if n = 62 then CHR ''+''
      else CHR ''/'')"

fun encode_bytes :: "nat list \<Rightarrow> string" where
  "encode_bytes (a # b # c # r) =
     base64_char (a div 4) # base64_char ((a mod 4) * 16 + b div 16) #
     base64_char ((b mod 16) * 4 + c div 64) # base64_char (c mod 64) # encode_bytes r"
| "encode_bytes [a, b] =
     [base64_char (a div 4), base64_char ((a mod 4) * 16 + b div 16),
      base64_char ((b mod 16) * 4), CHR ''='']"
| "encode_bytes [a] = [base64_char (a div 4), base64_char ((a mod 4) * 16), CHR ''='', CHR ''='']"
| "encode_bytes [] = []"

definition base64_encode :: "byte list \<Rightarrow> string" where
  "base64_encode bs = encode_bytes (map unat bs)"

subsection \<open>Property assignment\<close>

text \<open>
  \<open>obj[k] = v\<close> on an object that started as \<open>{}\<close>. JavaScript enumerates own
  properties with the array indices first, in ascending numeric order, and the other
  names after them in the order of their creation; a write to an existing property keeps
  its place. An array index is the canonical decimal form of an integer from 0 to
  \<open>2^32 - 2\<close>. That is \<open>own_set\<close>.

  The name \<open>__proto__\<close> is no property of the object: the write goes to the accessor
  inherited from \<open>Object.prototype\<close>. It adds no own property. Given an object or
  \<open>null\<close> it replaces the prototype of the object, and what later writes and string
  conversions do then depends on that prototype (a buffer, a date, an array or another
  object) and on the runtime: this theory does not follow the object further. Given any
  other value it does nothing.
\<close>

definition is_array_index :: "string \<Rightarrow> bool" where
  "is_array_index k =
     (k \<noteq> [] \<and> list_all is_digit k \<and> (k = ''0'' \<or> hd k \<noteq> CHR ''0'') \<and>
      digits_val k \<le> 4294967294)"

fun insert_index :: "string \<Rightarrow> jsval \<Rightarrow> (string \<times> jsval) list \<Rightarrow> (string \<times> jsval) list" where
  "insert_index k v [] = [(k, v)]"
| "insert_index k v (p # ps) =
     (if is_array_index (fst p) \<and> digits_val (fst p) < digits_val k
      then p # insert_index k v ps
      else (k, v) # p # ps)"

definition own_set :: "(string \<times> jsval) list \<Rightarrow> string \<Rightarrow> jsval \<Rightarrow> (string \<times> jsval) list" where
  "own_set obj k v =
     (if k \<in> fst ` set obj then AList.update k v obj
      else if is_array_index k then insert_index k v obj
      else obj @ [(k, v)])"

fun keeps_prototype :: "jsval \<Rightarrow> bool" where
  "keeps_prototype JUndefined = True"
| "keeps_prototype (JBool b) = True"
| "keeps_prototype (JString s) = True"
| "keeps_prototype (JNumber n) = True"
| "keeps_prototype JNull = False"
| "keeps_prototype (JBuffer bs) = False"
| "keeps_prototype (JDate a) = False"
| "keeps_prototype (JArray xs) = False"
| "keeps_prototype (JObject ps) = False"

definition obj_set :: "(string \<times> jsval) list \<Rightarrow> string \<Rightarrow> jsval \<Rightarrow> error + (string \<times> jsval) list" where
  "obj_set obj k v =
     (if k = ''__proto__''
      then (if keeps_prototype v then Inr obj else Inl (Unmodelled ''prototype replaced''))
      else Inr (own_set obj k v))"

text \<open>\<open>obj[key] = v\<close> for a key that is any value: the property name is its text.\<close>

definition obj_assign :: "(string \<times> jsval) list \<Rightarrow> jsval \<Rightarrow> jsval \<Rightarrow> error + (string \<times> jsval) list" where
  "obj_assign obj key v =
     (case string_of key of
        Inl e \<Rightarrow> Inl e
      | Inr k \<Rightarrow> obj_set obj k v)"

section \<open>Plist.ts\<close>

definition shouldIgnoreNode :: "xnode \<Rightarrow> bool" where
  "shouldIgnoreNode node =
     (nodeType node = TEXT_NODE \<or> nodeType node = COMMENT_NODE \<or> nodeType node = CDATA_NODE)"

definition isEmptyNode :: "xnode \<Rightarrow> bool" where
  "isEmptyNode node = (length (childNodes node) = 0)"

text \<open>The value of a \<open>nodeValue\<close> property: a string or \<open>null\<close>.\<close>

fun of_nullable :: "string option \<Rightarrow> jsval" where
  "of_nullable None = JNull"
| "of_nullable (Some s) = JString s"

text \<open>The loop of the \<open>string\<close> branch: \<open>res += nodeValue\<close> for text and CDATA children.\<close>

fun string_loop :: "xnode list \<Rightarrow> string \<Rightarrow> string" where
  "string_loop [] res = res"
| "string_loop (c # cs) res =
     (if nodeType c = TEXT_NODE \<or> nodeType c = CDATA_NODE
      then string_loop cs (res @ nullable_text (nodeValue c))
      else string_loop cs res)"

text \<open>The loop of the \<open>real\<close> branch: text children only.\<close>

fun real_loop :: "xnode list \<Rightarrow> string \<Rightarrow> string" where
  "real_loop [] res = res"
| "real_loop (c # cs) res =
     (if nodeType c = TEXT_NODE
      then real_loop cs (res @ nullable_text (nodeValue c))
      else real_loop cs res)"

text \<open>The loop of the \<open>data\<close> branch: \<open>res += nodeValue.replace(/\s+/g, '')\<close> for text
  children; \<open>replace\<close> on \<open>null\<close> would be a TypeError.\<close>

fun data_loop :: "xnode list \<Rightarrow> string \<Rightarrow> error + string" where
  "data_loop [] res = Inr res"
| "data_loop (c # cs) res =
     (if nodeType c = TEXT_NODE
      then (case nodeValue c of
              None \<Rightarrow> Inl (TypeError ''Cannot read property replace of null'')
            | Some s \<Rightarrow> data_loop cs (res @ replace_ws s))
      else data_loop cs res)"

text \<open>\<open>res != null\<close>: loose inequality, false for \<open>null\<close> and \<open>undefined\<close> only.\<close>

definition not_nullish :: "jsval \<Rightarrow> bool" where
  "not_nullish res = (res \<noteq> JNull \<and> res \<noteq> JUndefined)"

text \<open>
  \<open>parsePlistXML\<close>, with the three loops that call it back as functions of the remaining
  children and the loop variables. A thrown error is \<open>Inl\<close>. The guard
  \<open>if (!node) return null\<close> is not a branch here: every node of the tree exists. In the
  \<open>dict\<close> loop the message of the second \<open>invariant\<close> is an argument, so JavaScript
  builds it before the check, for every child in a value position: it calls
  \<open>parsePlistXML\<close> on the child and converts the result to a string.
\<close>

function parsePlistXML :: "xnode \<Rightarrow> error + jsval"
  and plist_loop :: "xnode list \<Rightarrow> jsval list \<Rightarrow> error + jsval list"
  and dict_loop :: "xnode list \<Rightarrow> nat \<Rightarrow> jsval \<Rightarrow> (string \<times> jsval) list
        \<Rightarrow> error + nat \<times> jsval \<times> (string \<times> jsval) list"
  and array_loop :: "xnode list \<Rightarrow> jsval list \<Rightarrow> error + jsval list"
where
  "parsePlistXML node =
     (if nodeName node = ''plist'' then
        (if isEmptyNode node then Inr (JArray [])
         else (case plist_loop (childNodes node) [] of
                 Inl e \<Rightarrow> Inl e
               | Inr new_arr \<Rightarrow> Inr (JArray new_arr)))
      else if nodeName node = ''dict'' then
        (if isEmptyNode node then Inr (JObject [])
         else (case dict_loop (childNodes node) 0 JNull [] of
                 Inl e \<Rightarrow> Inl e
               | Inr (counter, key, new_obj) \<Rightarrow>
                   if counter mod 2 = 1
                   then (case string_of key of
                           Inl e \<Rightarrow> Inl e
                         | Inr k \<Rightarrow>
                             Inl (Error (''Missing value for \"'' @ k @ ''\" while parsing <dict/>'')))
                   else Inr (JObject new_obj)))
      else if nodeName node = ''array'' then
        (if isEmptyNode node then Inr (JArray [])
         else (case array_loop (childNodes node) [] of
                 Inl e \<Rightarrow> Inl e
               | Inr new_arr \<Rightarrow> Inr (JArray new_arr)))
      else if nodeName node = ''#text'' then Inr JUndefined
      else if nodeName node = ''key'' then
        (if isEmptyNode node then Inr (JString [])
         else Inr (of_nullable (nodeValue (childNodes node ! 0))))
      else if nodeName node = ''string'' then
        (if isEmptyNode node then Inr (JString [])
         else Inr (JString (string_loop (childNodes node) [])))
      else if nodeName node = ''integer'' then
        (case invariant (\<not> isEmptyNode node) ''Cannot parse \"\" as integer.'' of
           Inl e \<Rightarrow> Inl e
         | Inr _ \<Rightarrow> Inr (JNumber (parseInt (nullable_text (nodeValue (childNodes node ! 0))))))
      else if nodeName node = ''real'' then
        (case invariant (\<not> isEmptyNode node) ''Cannot parse \"\" as real.'' of
           Inl e \<Rightarrow> Inl e
         | Inr _ \<Rightarrow> Inr (JNumber (ParseFloat (real_loop (childNodes node) []))))
      else if nodeName node = ''data'' then
        (if isEmptyNode node then Inr (JBuffer (base64_decode []))
         else (case data_loop (childNodes node) [] of
                 Inl e \<Rightarrow> Inl e
               | Inr res \<Rightarrow> Inr (JBuffer (base64_decode res))))
      else if nodeName node = ''date'' then
        (case invariant (\<not> isEmptyNode node) ''Cannot parse \"\" as Date.'' of
           Inl e \<Rightarrow> Inl e
         | Inr _ \<Rightarrow> Inr (JDate (nodeValue (childNodes node ! 0))))
      else if nodeName node = ''true'' then Inr (JBool True)
      else if nodeName node = ''false'' then Inr (JBool False)
      else Inr JUndefined)"
| "plist_loop [] new_arr = Inr new_arr"
| "plist_loop (c # cs) new_arr =
     (if \<not> shouldIgnoreNode c then
        (case parsePlistXML c of
           Inl e \<Rightarrow> Inl e
         | Inr res \<Rightarrow> plist_loop cs (new_arr @ [res]))
      else plist_loop cs new_arr)"
| "dict_loop [] counter key new_obj = Inr (counter, key, new_obj)"
| "dict_loop (c # cs) counter key new_obj =
     (if shouldIgnoreNode c then dict_loop cs counter key new_obj
      else if counter mod 2 = 0 then
        (case invariant (nodeName c = ''key'') ''Missing key while parsing <dict/>.'' of
           Inl e \<Rightarrow> Inl e
         | Inr _ \<Rightarrow>
             (case parsePlistXML c of
                Inl e \<Rightarrow> Inl e
              | Inr k \<Rightarrow> dict_loop cs (counter + 1) k new_obj))
      else
        (case parsePlistXML c of
           Inl e \<Rightarrow> Inl e
         | Inr m \<Rightarrow>
             (case ToString m of
                Inl e \<Rightarrow> Inl e
              | Inr text \<Rightarrow>
                  (case invariant_text (nodeName c \<noteq> ''key'')
                          (map_option (\<lambda>s. ''Unexpected key \"'' @ s @ ''\" while parsing <dict/>.'') text) of
                     Inl e \<Rightarrow> Inl e
                   | Inr _ \<Rightarrow>
                       (case parsePlistXML c of
                          Inl e \<Rightarrow> Inl e
                        | Inr v \<Rightarrow>
                            (case obj_assign new_obj key v of
                               Inl e \<Rightarrow> Inl e
                             | Inr obj \<Rightarrow> dict_loop cs (counter + 1) key obj))))))"
| "array_loop [] new_arr = Inr new_arr"
| "array_loop (c # cs) new_arr =
     (if \<not> shouldIgnoreNode c then
        (case parsePlistXML c of
           Inl e \<Rightarrow> Inl e
         | Inr res \<Rightarrow>
             if not_nullish res then array_loop cs (new_arr @ [res])
             else array_loop cs new_arr)
      else array_loop cs new_arr)"
  by pat_completeness auto
termination
proof (relation "measure (\<lambda>x. case x of
          Inl (Inl node) \<Rightarrow> 2 * size node
        | Inl (Inr (cs, _)) \<Rightarrow> 2 * size_list size cs + 1
        | Inr (Inl (cs, _)) \<Rightarrow> 2 * size_list size cs + 1
        | Inr (Inr (cs, _)) \<Rightarrow> 2 * size_list size cs + 1)", goal_cases)
  case 1
  show ?case by simp
next
  case (2 node)
  then show ?case by (cases node) simp_all
next
  case (3 node)
  then show ?case by (cases node) simp_all
next
  case (4 node)
  then show ?case by (cases node) simp_all
qed simp_all

text \<open>
  The entry point, from the document element on: \<open>DOMParser\<close> is the XML library's.
  A document with no element has \<open>documentElement\<close> \<open>null\<close>, and reading its
  \<open>nodeName\<close> is a TypeError. For the array that the \<open>plist\<close> node builds to,
  \<open>plist.length == 1\<close> compares the number of elements.
\<close>

definition parse :: "xnode option \<Rightarrow> error + jsval" where
  "parse documentElement =
     (case documentElement of
        None \<Rightarrow> Inl (TypeError ''Cannot read property nodeName of null'')
      | Some root \<Rightarrow>
          (case invariant (nodeName root = ''plist'')
                  ''malformed document. First element should be <plist>'' of
             Inl e \<Rightarrow> Inl e
           | Inr _ \<Rightarrow>
               (case parsePlistXML root of
                  Inl e \<Rightarrow> Inl e
                | Inr plist \<Rightarrow>
                    (case plist of
                       JArray xs \<Rightarrow> if length xs = 1 then Inr (xs ! 0) else Inr plist
                     | _ \<Rightarrow> Inr plist))))"

section \<open>Notions the statements use\<close>

text \<open>The children of a \<open>dict\<close> that the loop does not skip, when they come in pairs.\<close>

definition pairs_flat :: "(xnode \<times> xnode) list \<Rightarrow> xnode list" where
  "pairs_flat kvs = concat (map (\<lambda>(k, v). [k, v]) kvs)"

text \<open>The own properties after \<open>obj[k] = v\<close> for each pair of a list, in order, no
  name being \<open>__proto__\<close>.\<close>

definition assign_all :: "(string \<times> jsval) list \<Rightarrow> (string \<times> jsval) list \<Rightarrow> (string \<times> jsval) list" where
  "assign_all ps obj = foldl (\<lambda>obj (k, v). own_set obj k v) obj ps"

text \<open>The names of a list that come first when JavaScript enumerates the properties, the
  array indices, and the other names.\<close>

definition index_names :: "string list \<Rightarrow> string list" where
  "index_names ks = filter is_array_index ks"

definition plain_names :: "string list \<Rightarrow> string list" where
  "plain_names ks = filter (\<lambda>k. \<not> is_array_index k) ks"

text \<open>A list of names in which the array indices come first, in ascending order.\<close>

definition index_first :: "string list \<Rightarrow> bool" where
  "index_first ks \<longleftrightarrow> ks = index_names ks @ plain_names ks \<and> sorted (map digits_val (index_names ks))"

text \<open>The first occurrences of the elements of a list, in the order of the list.\<close>

definition first_occurrences :: "'a list \<Rightarrow> 'a list" where
  "first_occurrences xs = rev (remdups (rev xs))"


text \<open>The text content of a list of child nodes, in the words of the specification: the
  values of its text and CDATA children, concatenated.\<close>

fun node_text :: "xnode \<Rightarrow> string" where
  "node_text (Text s) = s"
| "node_text (CDATASection s) = s"
| "node_text (Element nm cs) = []"
| "node_text (Comment s) = []"

definition text_content :: "xnode list \<Rightarrow> string" where
  "text_content cs = concat (map node_text cs)"

text \<open>A well-formed base-10 signed integer, in the words of the specification: an optional
  sign and then decimal digits, at least one, and nothing else.\<close>

definition well_formed_int :: "string \<Rightarrow> bool" where
  "well_formed_int s =
     (case s of
        [] \<Rightarrow> False
      | c # r \<Rightarrow> if c = CHR ''-'' \<or> c = CHR ''+'' then r \<noteq> [] \<and> list_all is_digit r
                 else list_all is_digit s)"

text \<open>The content of a \<open>data\<close> element modulo white space, in the words of the
  specification: the values of its text children, concatenated, with all white space
  removed.\<close>

fun text_value :: "xnode \<Rightarrow> string" where
  "text_value (Text s) = s"
| "text_value (CDATASection s) = []"
| "text_value (Element nm cs) = []"
| "text_value (Comment s) = []"

definition data_text :: "xnode list \<Rightarrow> string" where
  "data_text cs = replace_ws (concat (map text_value cs))"

section \<open>Basic facts\<close>

declare parsePlistXML.simps [simp del]

declare bit_length.simps [simp del]

lemma key_not_ignored: "nodeName c = ''key'' \<Longrightarrow> \<not> shouldIgnoreNode c"
  by (cases c) (simp_all add: shouldIgnoreNode_def)

lemma key_builds:
  assumes "nodeName k = ''key''"
  shows "\<exists>kv s. parsePlistXML k = Inr kv \<and> string_of kv = Inr s \<and> ToString kv = Inr (Some s)
      \<and> (s = ''__proto__'' \<longrightarrow> kv = JString ''__proto__'')"
proof (cases "childNodes k")
  case Nil
  with assms show ?thesis by (simp add: parsePlistXML.simps isEmptyNode_def string_of_def)
next
  case (Cons c cs)
  with assms show ?thesis
    by (cases "nodeValue c") (simp_all add: parsePlistXML.simps isEmptyNode_def string_of_def)
qed

lemma dict_loop_filter:
  "dict_loop cs n key obj = dict_loop (filter (\<lambda>c. \<not> shouldIgnoreNode c) cs) n key obj"
  by (induction cs arbitrary: n key obj) (simp_all split: sum.splits)

text \<open>The own properties after the writes of a list of pairs, a write to \<open>__proto__\<close> that
  keeps the prototype changing nothing.\<close>

lemma dict_loop_pairs:
  assumes "n mod 2 = 0"
    and "list_all (\<lambda>(k, v). nodeName k = ''key'' \<and> nodeName v \<noteq> ''key'' \<and> \<not> shouldIgnoreNode v) kvs"
    and "map (\<lambda>(k, v). parsePlistXML k) kvs = map Inr ks"
    and "map string_of ks = map Inr names"
    and "map (\<lambda>(k, v). parsePlistXML v) kvs = map Inr vs"
    and "list_all (\<lambda>v. \<not> isl (ToString v)) vs"
    and "list_all (\<lambda>(s, v). s = ''__proto__'' \<longrightarrow> keeps_prototype v) (zip names vs)"
  shows "dict_loop (pairs_flat kvs @ rest) n key obj =
         dict_loop rest (n + 2 * length kvs) (last (key # ks))
           (foldl (\<lambda>obj (s, v). if s = ''__proto__'' then obj else own_set obj s v) obj (zip names vs))"
  using assms
proof (induction kvs arbitrary: n key obj ks names vs)
  case Nil
  then show ?case by (simp add: pairs_flat_def)
next
  case (Cons kv kvs)
  obtain k v where kv: "kv = (k, v)" by (cases kv)
  from Cons.prems(3) kv obtain k0 ks' where ks: "ks = k0 # ks'" "parsePlistXML k = Inr k0"
    "map (\<lambda>(k, v). parsePlistXML k) kvs = map Inr ks'"
    by (auto simp: Cons_eq_map_conv)
  from Cons.prems(4) ks(1) obtain s0 names' where names: "names = s0 # names'" "string_of k0 = Inr s0"
    "map string_of ks' = map Inr names'"
    by (auto simp: Cons_eq_map_conv)
  from Cons.prems(5) kv obtain v0 vs' where vs: "vs = v0 # vs'" "parsePlistXML v = Inr v0"
    "map (\<lambda>(k, v). parsePlistXML v) kvs = map Inr vs'"
    by (auto simp: Cons_eq_map_conv)
  from Cons.prems(2) kv have nm: "nodeName k = ''key''" "nodeName v \<noteq> ''key''" "\<not> shouldIgnoreNode v"
    and rest: "list_all (\<lambda>(k, v). nodeName k = ''key'' \<and> nodeName v \<noteq> ''key'' \<and> \<not> shouldIgnoreNode v) kvs"
    by simp_all
  from Cons.prems(6) vs(1) obtain tx where conv: "ToString v0 = Inr tx"
    and conv': "list_all (\<lambda>v. \<not> isl (ToString v)) vs'"
    by (cases "ToString v0") simp_all
  from Cons.prems(7) names(1) vs(1) have proto: "s0 = ''__proto__'' \<longrightarrow> keeps_prototype v0"
    and proto': "list_all (\<lambda>(s, v). s = ''__proto__'' \<longrightarrow> keeps_prototype v) (zip names' vs')"
    by simp_all
  let ?obj = "if s0 = ''__proto__'' then obj else own_set obj s0 v0"
  have n2: "(n + 2) mod 2 = 0" using Cons.prems(1) by presburger
  have n1: "(n + 1) mod 2 \<noteq> 0" using Cons.prems(1) by presburger
  have msg: "invariant_text True m = Inr ()" for m
    by (cases m) (simp_all add: invariant_text_def invariant_def)
  have put: "obj_assign obj k0 v0 = Inr ?obj"
    using names(2) proto by (simp add: obj_assign_def obj_set_def)
  have step: "dict_loop (pairs_flat (kv # kvs) @ rest) n key obj =
        dict_loop (pairs_flat kvs @ rest) (n + 2) k0 ?obj"
    using nm ks(2) vs(2) Cons.prems(1) n1 key_not_ignored[OF nm(1)] conv put
    by (simp add: kv pairs_flat_def invariant_def msg)
  have ih: "dict_loop (pairs_flat kvs @ rest) (n + 2) k0 ?obj =
      dict_loop rest (n + 2 + 2 * length kvs) (last (k0 # ks'))
        (foldl (\<lambda>obj (s, v). if s = ''__proto__'' then obj else own_set obj s v) ?obj (zip names' vs'))"
    by (rule Cons.IH[OF n2 rest ks(3) names(3) vs(3) conv' proto'])
  show ?case
    unfolding step ih by (simp add: ks(1) vs(1) names(1))
qed

lemma foldl_no_proto:
  "''__proto__'' \<notin> fst ` set ps \<Longrightarrow>
   foldl (\<lambda>obj (s, v). if s = ''__proto__'' then obj else own_set obj s v) obj ps = assign_all ps obj"
  unfolding assign_all_def
  by (induction ps arbitrary: obj) (auto split: prod.splits)

subsection \<open>The loop of the dict branch on alternating children\<close>

lemma keys_build:
  assumes "list_all (\<lambda>(k, v). nodeName k = ''key'' \<and> Q k v) kvs"
    and "length vs = length kvs"
    and "list_all (\<lambda>((k, v), x). parsePlistXML k = Inr (JString ''__proto__'') \<longrightarrow> keeps_prototype x)
           (zip kvs vs)"
  shows "\<exists>ks names. map (\<lambda>(k, v). parsePlistXML k) kvs = map Inr ks
      \<and> map string_of ks = map Inr names
      \<and> list_all (\<lambda>(s, v). s = ''__proto__'' \<longrightarrow> keeps_prototype v) (zip names vs)
      \<and> (list_all (\<lambda>(k, v). parsePlistXML k \<noteq> Inr (JString ''__proto__'')) kvs
            \<longrightarrow> ''__proto__'' \<notin> set names)"
  using assms
proof (induction kvs arbitrary: vs)
  case Nil
  then show ?case by simp
next
  case (Cons kv kvs)
  obtain k v where kv: "kv = (k, v)" by (cases kv)
  from Cons.prems(2) obtain x xs where vs: "vs = x # xs" "length xs = length kvs"
    by (cases vs) auto
  from Cons.prems(1) kv have key: "nodeName k = ''key''"
    and rest: "list_all (\<lambda>(k, v). nodeName k = ''key'' \<and> Q k v) kvs" by simp_all
  from key_builds[OF key] obtain k0 s0 where k0: "parsePlistXML k = Inr k0" "string_of k0 = Inr s0"
    "s0 = ''__proto__'' \<longrightarrow> k0 = JString ''__proto__''" by blast
  from Cons.prems(3) kv vs(1) have here: "parsePlistXML k = Inr (JString ''__proto__'') \<longrightarrow> keeps_prototype x"
    and later: "list_all (\<lambda>((k, v), x). parsePlistXML k = Inr (JString ''__proto__'') \<longrightarrow> keeps_prototype x)
           (zip kvs xs)" by simp_all
  from Cons.IH[OF rest vs(2) later] obtain ks names
    where ih: "map (\<lambda>(k, v). parsePlistXML k) kvs = map Inr ks" "map string_of ks = map Inr names"
      "list_all (\<lambda>(s, v). s = ''__proto__'' \<longrightarrow> keeps_prototype v) (zip names xs)"
      "list_all (\<lambda>(k, v). parsePlistXML k \<noteq> Inr (JString ''__proto__'')) kvs
            \<longrightarrow> ''__proto__'' \<notin> set names"
    by blast
  have "map (\<lambda>(k, v). parsePlistXML k) (kv # kvs) = map Inr (k0 # ks)"
    using ih(1) k0(1) kv by simp
  moreover have "map string_of (k0 # ks) = map Inr (s0 # names)"
    using ih(2) k0(2) by simp
  moreover have "list_all (\<lambda>(s, v). s = ''__proto__'' \<longrightarrow> keeps_prototype v) (zip (s0 # names) vs)"
    using ih(3) here k0(1,3) vs(1) by simp
  moreover have "list_all (\<lambda>(k, v). parsePlistXML k \<noteq> Inr (JString ''__proto__'')) (kv # kvs)
            \<longrightarrow> ''__proto__'' \<notin> set (s0 # names)"
    using ih(4) k0(1,3) kv by auto
  ultimately show ?case by blast
qed

lemma filter_pairs_not_ignored:
  assumes "filter P cs = pairs_flat kvs @ rest"
  shows "list_all (\<lambda>(k, v). P k \<and> P v) kvs"
proof -
  have "\<forall>c \<in> set (pairs_flat kvs). P c"
  proof
    fix c assume "c \<in> set (pairs_flat kvs)"
    then have "c \<in> set (filter P cs)" using assms by simp
    then show "P c" by simp
  qed
  then show ?thesis
    by (auto simp: pairs_flat_def list_all_iff)
qed

lemma dict_alternation:
  assumes "filter (\<lambda>c. \<not> shouldIgnoreNode c) cs = pairs_flat kvs @ rest"
    and "list_all (\<lambda>(k, v). nodeName k = ''key'' \<and> nodeName v \<noteq> ''key'') kvs"
    and "map (\<lambda>(k, v). parsePlistXML v) kvs = map Inr vs"
    and "list_all (\<lambda>v. \<not> isl (ToString v)) vs"
    and "list_all (\<lambda>((k, v), x). parsePlistXML k = Inr (JString ''__proto__'') \<longrightarrow> keeps_prototype x)
           (zip kvs vs)"
  shows "\<exists>ks names obj. map (\<lambda>(k, v). parsePlistXML k) kvs = map Inr ks
     \<and> map string_of ks = map Inr names
     \<and> dict_loop cs 0 JNull [] = dict_loop rest (2 * length kvs) (last (JNull # ks)) obj
     \<and> (list_all (\<lambda>(k, v). parsePlistXML k \<noteq> Inr (JString ''__proto__'')) kvs
          \<longrightarrow> obj = assign_all (zip names vs) [])"
proof -
  have len: "length vs = length kvs"
    using assms(3) by (metis length_map)
  from keys_build[OF assms(2) len assms(5)] obtain ks names
    where ks: "map (\<lambda>(k, v). parsePlistXML k) kvs = map Inr ks"
      and names: "map string_of ks = map Inr names"
      and proto: "list_all (\<lambda>(s, v). s = ''__proto__'' \<longrightarrow> keeps_prototype v) (zip names vs)"
      and none: "list_all (\<lambda>(k, v). parsePlistXML k \<noteq> Inr (JString ''__proto__'')) kvs
            \<longrightarrow> ''__proto__'' \<notin> set names"
    by blast
  from filter_pairs_not_ignored[OF assms(1)] assms(2)
  have ok: "list_all (\<lambda>(k, v). nodeName k = ''key'' \<and> nodeName v \<noteq> ''key'' \<and> \<not> shouldIgnoreNode v) kvs"
    by (auto simp: list_all_iff)
  let ?obj = "foldl (\<lambda>obj (s, v). if s = ''__proto__'' then obj else own_set obj s v) [] (zip names vs)"
  have "dict_loop cs 0 JNull [] = dict_loop (pairs_flat kvs @ rest) 0 JNull []"
    by (subst dict_loop_filter) (simp add: assms(1))
  also have "\<dots> = dict_loop rest (0 + 2 * length kvs) (last (JNull # ks)) ?obj"
    by (rule dict_loop_pairs[OF _ ok ks names assms(3,4) proto]) simp
  finally have loop: "dict_loop cs 0 JNull [] = dict_loop rest (2 * length kvs) (last (JNull # ks)) ?obj"
    by simp
  have "?obj = assign_all (zip names vs) []" if "''__proto__'' \<notin> set names"
  proof (rule foldl_no_proto)
    show "''__proto__'' \<notin> fst ` set (zip names vs)"
      using that by (auto dest: set_zip_leftD)
  qed
  with ks names loop none show ?thesis by blast
qed

subsection \<open>Property assignment\<close>

lemma map_of_insert_index:
  "k \<notin> fst ` set obj \<Longrightarrow> map_of (insert_index k v obj) = (map_of obj)(k \<mapsto> v)"
proof (induction obj)
  case Nil
  then show ?case by simp
next
  case (Cons p ps)
  then have "fst p \<noteq> k" by auto
  with Cons show ?case by (cases p) (auto simp: fun_upd_twist)
qed

lemma keys_insert_index: "fst ` set (insert_index k v obj) = insert k (fst ` set obj)"
  by (induction obj) auto

lemma distinct_insert_index:
  "k \<notin> fst ` set obj \<Longrightarrow> distinct (map fst obj) \<Longrightarrow> distinct (map fst (insert_index k v obj))"
  by (induction obj) (auto simp: keys_insert_index)

lemma map_of_own_set: "map_of (own_set obj k v) = (map_of obj)(k \<mapsto> v)"
proof -
  have "map_of (obj @ [(k, v)]) = (map_of obj)(k \<mapsto> v)" if "k \<notin> fst ` set obj"
  proof -
    from that have "map_of obj k = None" by (simp add: map_of_eq_None_iff)
    then show ?thesis
      by (auto simp: map_add_def fun_eq_iff split: option.splits)
  qed
  then show ?thesis
    by (simp add: own_set_def update_conv' map_of_insert_index)
qed

lemma distinct_own_set:
  "distinct (map fst obj) \<Longrightarrow> distinct (map fst (own_set obj k v))"
  by (simp add: own_set_def distinct_update distinct_insert_index)

lemma keys_own_set: "set (map fst (own_set obj k v)) = insert k (set (map fst obj))"
proof (cases "k \<in> fst ` set obj")
  case True
  then have "map fst (own_set obj k v) = map fst obj"
    by (simp add: own_set_def update_keys)
  with True show ?thesis by auto
next
  case False
  then show ?thesis
    using keys_insert_index[of k v obj] by (simp add: own_set_def)
qed

subsection \<open>The order of the properties\<close>

lemma plain_insert_index:
  "is_array_index k \<Longrightarrow> plain_names (map fst (insert_index k v obj)) = plain_names (map fst obj)"
  by (induction obj) (simp_all add: plain_names_def)

lemma plain_only: "index_names ks = [] \<Longrightarrow> plain_names ks = ks"
  by (simp add: plain_names_def index_names_def filter_empty_conv filter_id_conv)

lemma index_first_Cons_plain:
  assumes "index_first (k # ks)" and "\<not> is_array_index k"
  shows "index_names ks = []"
proof -
  from assms have eq: "k # ks = index_names ks @ k # plain_names ks"
    by (simp add: index_first_def index_names_def plain_names_def)
  show ?thesis
  proof (cases "index_names ks")
    case Nil
    then show ?thesis .
  next
    case (Cons x xs)
    with eq have "x = k" by simp
    moreover from Cons have "x \<in> set (index_names ks)" by simp
    then have "is_array_index x" by (simp add: index_names_def)
    ultimately show ?thesis using assms(2) by simp
  qed
qed

lemma index_first_tail: "index_first (k # ks) \<Longrightarrow> index_first ks"
proof (cases "is_array_index k")
  case True
  assume "index_first (k # ks)"
  with True show ?thesis
    by (simp add: index_first_def index_names_def plain_names_def)
next
  case False
  assume a: "index_first (k # ks)"
  from index_first_Cons_plain[OF a False] have "index_names ks = []" .
  moreover then have "plain_names ks = ks" by (simp add: plain_only)
  ultimately show ?thesis by (simp add: index_first_def)
qed

lemma index_first_insert:
  assumes "is_array_index k" and "index_first (map fst obj)"
  shows "index_first (map fst (insert_index k v obj))"
  using assms(2)
proof (induction obj)
  case Nil
  with assms(1) show ?case by (simp add: index_first_def index_names_def plain_names_def)
next
  case (Cons p ps)
  from Cons.prems have tail: "index_first (map fst ps)" by (auto dest: index_first_tail)
  show ?case
  proof (cases "is_array_index (fst p) \<and> digits_val (fst p) < digits_val k")
    case True
    from Cons.IH[OF tail] have ih: "index_first (map fst (insert_index k v ps))" .
    have names: "set (index_names (map fst (insert_index k v ps))) = insert k (set (index_names (map fst ps)))"
      using keys_insert_index[of k v ps] assms(1) by (auto simp: index_names_def)
    from Cons.prems True have le: "\<forall>x \<in> set (index_names (map fst ps)). digits_val (fst p) \<le> digits_val x"
      by (auto simp: index_first_def index_names_def)
    from True have "\<forall>x \<in> set (index_names (map fst (insert_index k v ps))). digits_val (fst p) \<le> digits_val x"
      unfolding names using le by auto
    with ih True show ?thesis
      by (auto simp: index_first_def index_names_def plain_names_def)
  next
    case False
    show ?thesis
    proof (cases "is_array_index (fst p)")
      case True
      with False have "digits_val k \<le> digits_val (fst p)" by simp
      with Cons.prems True assms(1) show ?thesis
        using False by (auto simp: index_first_def index_names_def plain_names_def)
    next
      case plain: False
      from index_first_Cons_plain[of "fst p" "map fst ps"] Cons.prems plain
      have "index_names (map fst ps) = []" by simp
      moreover then have "plain_names (map fst ps) = map fst ps" by (simp add: plain_only)
      ultimately show ?thesis
        using plain assms(1) False
        by (simp add: index_first_def index_names_def plain_names_def)
    qed
  qed
qed

lemma index_first_own_set:
  assumes "index_first (map fst obj)"
  shows "index_first (map fst (own_set obj k v))"
proof -
  have "index_first (map fst obj @ [k])" if "\<not> is_array_index k"
    using assms that by (simp add: index_first_def index_names_def plain_names_def)
  with assms show ?thesis
    by (auto simp: own_set_def update_keys index_first_insert)
qed

lemma plain_own_set:
  "plain_names (map fst (own_set obj k v)) =
     (if is_array_index k \<or> k \<in> set (map fst obj) then plain_names (map fst obj)
      else plain_names (map fst obj) @ [k])"
  by (auto simp: own_set_def update_keys plain_insert_index) (simp_all add: plain_names_def)

subsection \<open>A list of writes\<close>

lemma assign_all_snoc: "assign_all (ps @ [(k, v)]) obj = own_set (assign_all ps obj) k v"
  by (simp add: assign_all_def)

lemma distinct_assign_all: "distinct (map fst (assign_all ps []))"
  by (induction ps rule: rev_induct) (simp_all add: assign_all_def distinct_own_set split: prod.splits)

lemma map_of_assign_all: "map_of (assign_all ps []) = map_of (rev ps)"
proof (induction ps rule: rev_induct)
  case Nil
  then show ?case by (simp add: assign_all_def)
next
  case (snoc p ps)
  obtain k v where p: "p = (k, v)" by (cases p)
  from snoc show ?case
    by (simp add: p assign_all_snoc map_of_own_set)
qed

lemma keys_assign_all: "set (map fst (assign_all ps [])) = set (map fst ps)"
proof (induction ps rule: rev_induct)
  case Nil
  then show ?case by (simp add: assign_all_def)
next
  case (snoc p ps)
  obtain k v where p: "p = (k, v)" by (cases p)
  from snoc show ?case
    by (simp add: p assign_all_snoc keys_own_set del: set_map)
qed

lemma index_first_assign_all: "index_first (map fst (assign_all ps []))"
proof (induction ps rule: rev_induct)
  case Nil
  then show ?case by (simp add: assign_all_def index_first_def index_names_def plain_names_def)
next
  case (snoc p ps)
  obtain k v where p: "p = (k, v)" by (cases p)
  from snoc show ?case
    by (simp add: p assign_all_snoc index_first_own_set)
qed

lemma first_occurrences_snoc:
  "first_occurrences (xs @ [x]) = (if x \<in> set xs then first_occurrences xs else first_occurrences xs @ [x])"
  by (simp add: first_occurrences_def)

lemma plain_assign_all:
  "plain_names (map fst (assign_all ps [])) = first_occurrences (plain_names (map fst ps))"
proof (induction ps rule: rev_induct)
  case Nil
  then show ?case by (simp add: assign_all_def plain_names_def first_occurrences_def)
next
  case (snoc p ps)
  obtain k v where p: "p = (k, v)" by (cases p)
  let ?obj = "assign_all ps []"
  have step: "plain_names (map fst (assign_all (ps @ [p]) [])) =
      (if is_array_index k \<or> k \<in> set (map fst ?obj) then plain_names (map fst ?obj)
       else plain_names (map fst ?obj) @ [k])"
    unfolding p assign_all_snoc by (rule plain_own_set)
  show ?case
  proof (cases "is_array_index k")
    case True
    then have "plain_names (map fst (ps @ [p])) = plain_names (map fst ps)"
      by (simp add: p plain_names_def)
    with step True snoc show ?thesis by simp
  next
    case False
    then have names: "plain_names (map fst (ps @ [p])) = plain_names (map fst ps) @ [k]"
      by (simp add: p plain_names_def)
    have "k \<in> set (map fst ?obj) \<longleftrightarrow> k \<in> set (map fst ps)"
      by (simp only: keys_assign_all)
    also have "\<dots> \<longleftrightarrow> k \<in> set (plain_names (map fst ps))"
      using False by (simp add: plain_names_def)
    finally have mem: "k \<in> set (map fst ?obj) \<longleftrightarrow> k \<in> set (plain_names (map fst ps))" .
    show ?thesis
      unfolding step names first_occurrences_snoc mem snoc.IH using False by simp
  qed
qed

subsection \<open>The loop of the array branch\<close>

lemma array_loop_result:
  "array_loop cs new_arr = Inr r \<Longrightarrow>
   \<exists>vs. map parsePlistXML (filter (\<lambda>c. \<not> shouldIgnoreNode c) cs) = map Inr vs
        \<and> r = new_arr @ filter not_nullish vs"
proof (induction cs arbitrary: new_arr)
  case Nil
  then show ?case by simp
next
  case (Cons c cs)
  show ?case
  proof (cases "shouldIgnoreNode c")
    case True
    with Cons show ?thesis by simp
  next
    case False
    with Cons.prems obtain v where v: "parsePlistXML c = Inr v"
      by (cases "parsePlistXML c") simp_all
    let ?acc = "if not_nullish v then new_arr @ [v] else new_arr"
    from Cons.prems False v have "array_loop cs ?acc = Inr r"
      by (cases "not_nullish v") simp_all
    from Cons.IH[OF this] obtain vs
      where vs: "map parsePlistXML (filter (\<lambda>c. \<not> shouldIgnoreNode c) cs) = map Inr vs"
        and r: "r = ?acc @ filter not_nullish vs"
      by blast
    from vs v False
    have "map parsePlistXML (filter (\<lambda>c. \<not> shouldIgnoreNode c) (c # cs)) = map Inr (v # vs)"
      by simp
    moreover from r have "r = new_arr @ filter not_nullish (v # vs)" by simp
    ultimately show ?thesis by blast
  qed
qed

subsection \<open>Base64: decoding what the encoder wrote\<close>

lemma data_loop_text: "data_loop cs res = Inr (res @ data_text cs)"
proof (induction cs arbitrary: res)
  case Nil
  then show ?case by (simp add: data_text_def replace_ws_def)
next
  case (Cons c cs)
  have "data_text (c # cs) = replace_ws (text_value c) @ data_text cs"
    by (simp add: data_text_def replace_ws_def)
  with Cons show ?case by (cases c) (simp_all add: replace_ws_def)
qed

lemma unbase64_base64_char: "n < 64 \<Longrightarrow> unbase64 (base64_char n) = Some n"
  by (auto simp: unbase64_def base64_char_def Let_def)

lemma base64_char_not_pad:
  assumes "n < 64"
  shows "base64_char n \<noteq> CHR ''=''"
proof
  assume "base64_char n = CHR ''=''"
  with unbase64_base64_char[OF assms] have "unbase64 (CHR ''='') = Some n" by simp
  then show False by (simp add: unbase64_def)
qed

lemma sextets_Cons: "n < 64 \<Longrightarrow> base64_sextets (base64_char n # s) = n # base64_sextets s"
  by (simp add: base64_sextets_def base64_char_not_pad unbase64_base64_char List.map_filter_simps)

lemma sextets_pad: "base64_sextets (CHR ''='' # s) = []"
  by (simp add: base64_sextets_def List.map_filter_simps)

lemma sextets_Nil: "base64_sextets [] = []"
  by (simp add: base64_sextets_def List.map_filter_simps)

lemma split16:
  fixes x y :: nat
  assumes "y < 16"
  shows "(x * 16 + y) mod 16 = y" "(x * 16 + y) div 16 = x"
  using assms by simp_all

lemma split4:
  fixes l k :: nat
  assumes "k < 4"
  shows "(l * 4 + k) mod 4 = k" "(l * 4 + k) div 4 = l"
  using assms by simp_all

lemma byte_parts:
  fixes b :: nat
  assumes "b < 256"
  shows "b div 16 < 16" "b div 64 < 4"
  using assms by simp_all

lemma decode_group3:
  assumes "a < 256" "b < 256" "c < 256"
  shows "decode_sextets (a div 4 # ((a mod 4) * 16 + b div 16) # ((b mod 16) * 4 + c div 64) #
           c mod 64 # r) = a # b # c # decode_sextets r"
  by (simp add: split16 split4 byte_parts[OF assms(2)] byte_parts[OF assms(3)])

lemma decode_group2:
  assumes "a < 256" "b < 256"
  shows "decode_sextets [a div 4, (a mod 4) * 16 + b div 16, (b mod 16) * 4] = [a, b]"
  by (simp add: split16 byte_parts[OF assms(2)])

lemma decode_group1: "decode_sextets [a div 4, (a mod 4) * 16] = [a]"
  by simp

lemma sextet_bounds:
  fixes a b :: nat
  assumes "a < 256" "b < 256"
  shows "a div 4 < 64" "(a mod 4) * 16 + b div 16 < 64" "(a mod 4) * 16 < 64" "a mod 64 < 64"
    "(a mod 16) * 4 + b div 64 < 64" "(a mod 16) * 4 < 64"
proof -
  have "a mod 4 < 4" "a mod 16 < 16" by simp_all
  then have "a mod 4 \<le> 3" "a mod 16 \<le> 15" by linarith+
  moreover have "b div 16 \<le> 15" "b div 64 \<le> 3" using byte_parts[OF assms(2)] by linarith+
  ultimately show "(a mod 4) * 16 + b div 16 < 64" "(a mod 4) * 16 < 64"
    "(a mod 16) * 4 + b div 64 < 64" "(a mod 16) * 4 < 64"
    by linarith+
  show "a div 4 < 64" using assms(1) by simp
  show "a mod 64 < 64" by simp
qed

lemma decode_encode_bytes:
  "list_all (\<lambda>b. b < 256) bs \<Longrightarrow> decode_sextets (base64_sextets (encode_bytes bs)) = bs"
proof (induction bs rule: encode_bytes.induct)
  case (1 a b c r)
  then have ab: "a < 256" "b < 256" "c < 256" and r: "list_all (\<lambda>b. b < 256) r" by simp_all
  have "base64_sextets (encode_bytes (a # b # c # r)) =
      a div 4 # ((a mod 4) * 16 + b div 16) # ((b mod 16) * 4 + c div 64) # c mod 64 #
      base64_sextets (encode_bytes r)"
    by (simp add: sextets_Cons sextet_bounds[OF ab(1,2)] sextet_bounds[OF ab(2,3)]
        sextet_bounds[OF ab(3,3)])
  then show ?case
    by (simp only: decode_group3[OF ab] "1.IH"[OF r])
next
  case (2 a b)
  then have ab: "a < 256" "b < 256" by simp_all
  have "base64_sextets (encode_bytes [a, b]) = [a div 4, (a mod 4) * 16 + b div 16, (b mod 16) * 4]"
    by (simp add: sextets_Cons sextets_pad sextet_bounds[OF ab(1,2)] sextet_bounds[OF ab(2,2)])
  then show ?case by (simp only: decode_group2[OF ab])
next
  case (3 a)
  then have a: "a < 256" by simp
  have "base64_sextets (encode_bytes [a]) = [a div 4, (a mod 4) * 16]"
    by (simp add: sextets_Cons sextets_pad sextet_bounds[OF a a])
  then show ?case by (simp only: decode_group1)
next
  case 4
  show ?case by (simp add: sextets_Nil)
qed

lemma base64_decode_encode: "base64_decode (base64_encode bs) = bs"
proof -
  have "list_all (\<lambda>b. b < 256) (map unat bs)"
  proof -
    have "unat b < 256" for b :: byte
      using unsigned_less[of b, where 'a = nat] by simp
    then show ?thesis by (simp add: list_all_iff)
  qed
  then have "decode_sextets (base64_sextets (encode_bytes (map unat bs))) = map unat bs"
    by (rule decode_encode_bytes)
  then show ?thesis
    by (simp add: base64_decode_def base64_encode_def map_idI)
qed

subsection \<open>Messages without a format directive\<close>




subsection \<open>parseInt\<close>

lemma digit_not_space: "is_digit c \<Longrightarrow> \<not> is_space c"
  by (auto simp: is_digit_def is_space_def)

lemma digit_not_sign: "is_digit c \<Longrightarrow> c \<noteq> CHR ''-'' \<and> c \<noteq> CHR ''+''"
  by (auto simp: is_digit_def)

lemma parseInt_no_digit:
  assumes "\<forall>x \<in> set s. \<not> is_digit x"
  shows "parseInt s = NaN"
proof -
  let ?t = "dropWhile is_space s"
  let ?u = "case ?t of c # r \<Rightarrow> (if c = CHR ''-'' \<or> c = CHR ''+'' then r else ?t) | [] \<Rightarrow> ?t"
  have "set ?t \<subseteq> set s" by (auto dest: set_dropWhileD)
  moreover have "set ?u \<subseteq> set ?t" by (auto split: list.splits)
  ultimately have "\<forall>x \<in> set ?u. \<not> is_digit x" using assms by blast
  then have "takeWhile is_digit ?u = []" by (cases ?u) auto
  then show ?thesis by (simp add: parseInt_def Let_def)
qed

lemma parseInt_digit_prefix:
  assumes "ds \<noteq> []" and "list_all is_digit ds" and "r = [] \<or> \<not> is_digit (hd r)"
  shows "parseInt (ds @ r) =
     (case to_double (digits_val ds) of None \<Rightarrow> PosInfinity | Some m \<Rightarrow> NumInt (int m))"
proof -
  from assms(1) obtain d ds' where ds: "ds = d # ds'" by (cases ds) auto
  with assms(2) have d: "is_digit d" by simp
  have t: "dropWhile is_space (ds @ r) = ds @ r"
    using digit_not_space[OF d] by (simp add: ds)
  have z: "takeWhile is_digit (ds @ r) = ds"
  proof (cases r)
    case Nil
    with assms(2) show ?thesis by (simp add: list_all_iff)
  next
    case (Cons x xs)
    with assms(3) have "\<not> is_digit x" by simp
    with assms(2) Cons show ?thesis by (simp add: list_all_iff takeWhile_tail)
  qed
  have u: "(case ds @ r of [] \<Rightarrow> ds @ r
            | c # r' \<Rightarrow> if c = CHR ''-'' \<or> c = CHR ''+'' then r' else ds @ r) = ds @ r"
    using digit_not_sign[OF d] by (simp add: ds)
  have neg: "(case ds @ r of [] \<Rightarrow> False | c # x \<Rightarrow> c = CHR ''-'') = False"
    using digit_not_sign[OF d] by (simp add: ds)
  show ?thesis
    unfolding parseInt_def t Let_def u neg z using assms(1)
    by (simp split: option.splits)
qed

lemma to_double_exact: "n < 2 ^ 53 \<Longrightarrow> to_double n = Some n"
  by (simp add: to_double_def)

subsection \<open>Evaluation on a concrete tree\<close>

lemmas run = parsePlistXML.simps shouldIgnoreNode_def isEmptyNode_def invariant_def own_set_def
  obj_set_def obj_assign_def string_of_def invariant_text_def is_array_index_def is_digit_def
  digits_val_def pairs_flat_def assign_all_def not_nullish_def

lemmas num = parseInt_def is_space_def is_digit_def digits_val_def to_double_def bit_length.simps Let_def

lemmas b64 = base64_decode_def base64_sextets_def unbase64_def
  base64_encode_def base64_char_def data_text_def replace_ws_def is_space_def

section \<open>Empty elements\<close>

text \<open>
  Claim C6. An element with no child nodes builds to the zero value of its kind or fails:
  an empty \<open>string\<close> gives the empty string, an empty \<open>dict\<close> an object with no
  property, an empty \<open>array\<close> an empty array, an empty \<open>data\<close> a buffer of length
  zero; an empty \<open>integer\<close>, \<open>real\<close> or \<open>date\<close> fails in its \<open>invariant\<close>
  and returns no value.
\<close>

theorem C6_empty_element_policy:
  "parsePlistXML (Element ''string'' []) = Inr (JString [])
   \<and> parsePlistXML (Element ''dict'' []) = Inr (JObject [])
   \<and> parsePlistXML (Element ''array'' []) = Inr (JArray [])
   \<and> parsePlistXML (Element ''data'' []) = Inr (JBuffer [])
   \<and> parsePlistXML (Element ''integer'' []) = Inl (InvariantViolation ''Cannot parse \"\" as integer.'')
   \<and> parsePlistXML (Element ''real'' []) = Inl (InvariantViolation ''Cannot parse \"\" as real.'')
   \<and> parsePlistXML (Element ''date'' []) = Inl (InvariantViolation ''Cannot parse \"\" as Date.'')"
  by (simp add: parsePlistXML.simps isEmptyNode_def invariant_def base64_decode_def
      base64_sextets_def)

section \<open>Dictionaries\<close>

text \<open>
  Claim C1, as the code has it. Take a \<open>dict\<close> node whose children that are not
  skipped are \<open>k\<^sub>1, v\<^sub>1, \<dots>, k\<^sub>n, v\<^sub>n\<close>, every \<open>k\<^sub>i\<close> named \<open>key\<close>, no \<open>v\<^sub>i\<close> named \<open>key\<close>,
  every \<open>v\<^sub>i\<close> building without error to a value whose conversion to a string throws
  no TypeError (the loop converts every value, for the message of its \<open>invariant\<close>), and
  no \<open>k\<^sub>i\<close> building to the string \<open>__proto__\<close>. Then every key builds, to \<open>ks\<close>
  with the strings \<open>names\<close>, and the node builds to the object that results from the
  assignments \<open>obj[name\<^sub>i] = v\<^sub>i\<close> in document order. Its property names are distinct
  and are exactly the key strings; looking up a name gives the value of the last pair with
  that key, so a later duplicate overwrites an earlier one; and the properties are
  enumerated with the names that are array indices first, in ascending numeric order, and
  all other names after them, in the document order of the first occurrence of each.
\<close>

theorem C1_dict_builds_object:
  assumes "nodeName node = ''dict''"
    and "filter (\<lambda>c. \<not> shouldIgnoreNode c) (childNodes node) = pairs_flat kvs"
    and "list_all (\<lambda>(k, v). nodeName k = ''key'' \<and> nodeName v \<noteq> ''key'') kvs"
    and "map (\<lambda>(k, v). parsePlistXML v) kvs = map Inr vs"
    and "list_all (\<lambda>v. \<not> isl (ToString v)) vs"
    and "list_all (\<lambda>(k, v). parsePlistXML k \<noteq> Inr (JString ''__proto__'')) kvs"
  shows "\<exists>ks names obj.
        map (\<lambda>(k, v). parsePlistXML k) kvs = map Inr ks
      \<and> map string_of ks = map Inr names
      \<and> parsePlistXML node = Inr (JObject obj)
      \<and> obj = assign_all (zip names vs) []
      \<and> distinct (map fst obj)
      \<and> set (map fst obj) = set names
      \<and> map_of obj = map_of (rev (zip names vs))
      \<and> map fst obj = index_names (map fst obj) @ plain_names (map fst obj)
      \<and> sorted (map digits_val (index_names (map fst obj)))
      \<and> plain_names (map fst obj) = first_occurrences (plain_names names)"
proof -
  from assms(2) have f: "filter (\<lambda>c. \<not> shouldIgnoreNode c) (childNodes node) = pairs_flat kvs @ []"
    by simp
  have safe: "list_all (\<lambda>((k, v), x). parsePlistXML k = Inr (JString ''__proto__'') \<longrightarrow> keeps_prototype x)
           (zip kvs vs)"
    using assms(6) by (auto simp: list_all_iff dest: set_zip_leftD)
  from dict_alternation[OF f assms(3,4,5) safe] assms(6) obtain ks names
    where ks: "map (\<lambda>(k, v). parsePlistXML k) kvs = map Inr ks"
      and names: "map string_of ks = map Inr names"
      and loop: "dict_loop (childNodes node) 0 JNull [] =
         dict_loop [] (2 * length kvs) (last (JNull # ks)) (assign_all (zip names vs) [])"
    by blast
  let ?ps = "zip names vs"
  let ?obj = "assign_all ?ps []"
  have "length names = length ks" using names by (metis length_map)
  moreover have "length ks = length kvs" using ks by (metis length_map)
  moreover have "length vs = length kvs" using assms(4) by (metis length_map)
  ultimately have fst_ps: "map fst ?ps = names" by simp
  have empty: "?obj = []" if "childNodes node = []"
  proof -
    from that assms(2) have "kvs = []" by (cases kvs) (auto simp: pairs_flat_def)
    with assms(4) show ?thesis by (simp add: assign_all_def)
  qed
  have res: "parsePlistXML node = Inr (JObject ?obj)"
    using assms(1) loop empty
    by (simp add: parsePlistXML.simps isEmptyNode_def)
  have keys: "set (map fst ?obj) = set names"
    using keys_assign_all[of ?ps] unfolding fst_ps .
  have order: "map fst ?obj = index_names (map fst ?obj) @ plain_names (map fst ?obj)"
      "sorted (map digits_val (index_names (map fst ?obj)))"
    using index_first_assign_all[of ?ps] unfolding index_first_def by simp_all
  have plain: "plain_names (map fst ?obj) = first_occurrences (plain_names names)"
    using plain_assign_all[of ?ps] unfolding fst_ps .
  show ?thesis
    using ks names res distinct_assign_all[of ?ps] keys map_of_assign_all[of ?ps] order plain
    by blast
qed

text \<open>The theorem at a dictionary with ignorable nodes between the pairs, a repeated key
  and two keys that are array indices: \<open>0\<close> and \<open>1\<close> come first, then \<open>b\<close> before
  \<open>a\<close>, and \<open>b\<close> holds the later value.\<close>

theorem C1_witness:
  "parsePlistXML (Element ''dict''
      [Text '' '', Element ''key'' [Text ''b''], Element ''string'' [Text ''x''], Comment ''c'',
       Element ''key'' [Text ''1''], Element ''true'' [],
       Element ''key'' [Text ''a''], Element ''real'' [Text ''1.5''],
       Element ''key'' [Text ''0''], Element ''array'' [],
       Element ''key'' [Text ''b''], Element ''string'' [Text ''y'']])
     = Inr (JObject [(''0'', JArray []), (''1'', JBool True), (''b'', JString ''y''),
                     (''a'', JNumber (ParseFloat ''1.5''))])"
proof -
  let ?D = "Element ''dict''
      [Text '' '', Element ''key'' [Text ''b''], Element ''string'' [Text ''x''], Comment ''c'',
       Element ''key'' [Text ''1''], Element ''true'' [],
       Element ''key'' [Text ''a''], Element ''real'' [Text ''1.5''],
       Element ''key'' [Text ''0''], Element ''array'' [],
       Element ''key'' [Text ''b''], Element ''string'' [Text ''y'']]"
  let ?kvs = "[(Element ''key'' [Text ''b''], Element ''string'' [Text ''x'']),
       (Element ''key'' [Text ''1''], Element ''true'' []),
       (Element ''key'' [Text ''a''], Element ''real'' [Text ''1.5'']),
       (Element ''key'' [Text ''0''], Element ''array'' []),
       (Element ''key'' [Text ''b''], Element ''string'' [Text ''y''])]"
  let ?vs = "[JString ''x'', JBool True, JNumber (ParseFloat ''1.5''), JArray [], JString ''y'']"
  have h1: "nodeName ?D = ''dict''" by simp
  have h2: "filter (\<lambda>c. \<not> shouldIgnoreNode c) (childNodes ?D) = pairs_flat ?kvs"
    by (simp add: shouldIgnoreNode_def pairs_flat_def)
  have h3: "list_all (\<lambda>(k, v). nodeName k = ''key'' \<and> nodeName v \<noteq> ''key'') ?kvs" by simp
  have h4: "map (\<lambda>(k, v). parsePlistXML v) ?kvs = map Inr ?vs" by (simp add: run)
  have h5: "list_all (\<lambda>v. \<not> isl (ToString v)) ?vs" by simp
  have h6: "list_all (\<lambda>(k, v). parsePlistXML k \<noteq> Inr (JString ''__proto__'')) ?kvs"
    by (simp add: run)
  from C1_dict_builds_object[OF h1 h2 h3 h4 h5 h6] obtain ks names obj
    where ks: "map (\<lambda>(k, v). parsePlistXML k) ?kvs = map Inr ks"
      and names: "map string_of ks = map Inr names"
      and res: "parsePlistXML ?D = Inr (JObject obj)"
      and obj: "obj = assign_all (zip names ?vs) []"
    by blast
  from ks have k: "ks = [JString ''b'', JString ''1'', JString ''a'', JString ''0'', JString ''b'']"
    by (auto simp: run Cons_eq_map_conv)
  from names have n: "names = [''b'', ''1'', ''a'', ''0'', ''b'']"
    unfolding k by (auto simp: string_of_def Cons_eq_map_conv)
  from obj have "obj = [(''0'', JArray []), (''1'', JBool True), (''b'', JString ''y''),
                     (''a'', JNumber (ParseFloat ''1.5''))]"
    unfolding n by (simp add: run)
  with res show ?thesis by simp
qed

text \<open>
  The claim as stated fails in four ways: the key \<open>1\<close> is an array index, which
  JavaScript enumerates before \<open>b\<close> although it comes second in the document; the key
  \<open>__proto__\<close> gives no entry; a value child that fails to build makes the whole
  \<open>dict\<close> fail; and so does a value that cannot be converted to a string, such as a
  dictionary with the key \<open>toString\<close>.
\<close>

theorem C1_counterexample:
  "parsePlistXML (Element ''dict''
      [Element ''key'' [Text ''b''], Element ''string'' [Text ''x''],
       Element ''key'' [Text ''1''], Element ''string'' [Text ''y'']])
     = Inr (JObject [(''1'', JString ''y''), (''b'', JString ''x'')])
   \<and> parsePlistXML (Element ''dict''
      [Element ''key'' [Text ''b''], Element ''string'' [Text ''x''],
       Element ''key'' [Text ''1''], Element ''string'' [Text ''y'']])
     \<noteq> Inr (JObject [(''b'', JString ''x''), (''1'', JString ''y'')])
   \<and> parsePlistXML (Element ''dict''
      [Element ''key'' [Text ''__proto__''], Element ''string'' [Text ''x'']])
     = Inr (JObject [])
   \<and> parsePlistXML (Element ''dict'' [Element ''key'' [Text ''a''], Element ''integer'' []])
     = Inl (InvariantViolation ''Cannot parse \"\" as integer.'')
   \<and> parsePlistXML (Element ''dict''
      [Element ''key'' [Text ''a''],
       Element ''dict'' [Element ''key'' [Text ''toString''], Element ''string'' [Text ''x'']]])
     = Inl (TypeError ''Cannot convert object to primitive value'')"
  by (simp add: run)







section \<open>The entry point\<close>

text \<open>
  Claim C2. For a document whose root element is named \<open>plist\<close>, \<open>parse\<close> fails with
  the error of \<open>parsePlistXML\<close> on the root when that fails; otherwise the root builds
  to an array, and \<open>parse\<close> returns the only element of that array when its length is
  exactly 1, and the array itself when its length is 0 or at least 2.
\<close>

theorem C2_parse_unwraps_single:
  assumes "nodeName root = ''plist''"
  shows "(\<exists>e. parsePlistXML root = Inl e \<and> parse (Some root) = Inl e)
      \<or> (\<exists>xs. parsePlistXML root = Inr (JArray xs)
            \<and> parse (Some root) = Inr (if length xs = 1 then xs ! 0 else JArray xs))"
proof (cases "parsePlistXML root")
  case (Inl e)
  with assms show ?thesis by (simp add: parse_def invariant_def)
next
  case (Inr p)
  with assms obtain xs where "p = JArray xs"
    by (auto simp: parsePlistXML.simps split: if_splits sum.splits)
  with Inr assms show ?thesis by (simp add: parse_def invariant_def)
qed

text \<open>One, two and no top-level value.\<close>

theorem C2_witness:
  "parse (Some (Element ''plist'' [Text '' '', Element ''string'' [Text ''hi'']])) = Inr (JString ''hi'')
   \<and> parse (Some (Element ''plist'' [Element ''true'' [], Element ''false'' []]))
       = Inr (JArray [JBool True, JBool False])
   \<and> parse (Some (Element ''plist'' [])) = Inr (JArray [])"
proof -
  let ?r1 = "Element ''plist'' [Text '' '', Element ''string'' [Text ''hi'']]"
  let ?r2 = "Element ''plist'' [Element ''true'' [], Element ''false'' []]"
  let ?r3 = "Element ''plist'' []"
  have b1: "parsePlistXML ?r1 = Inr (JArray [JString ''hi''])" by (simp add: run)
  have b2: "parsePlistXML ?r2 = Inr (JArray [JBool True, JBool False])" by (simp add: run)
  have b3: "parsePlistXML ?r3 = Inr (JArray [])" by (simp add: run)
  have "parse (Some ?r1) = Inr (JString ''hi'')"
    using C2_parse_unwraps_single[of ?r1] b1 by simp
  moreover have "parse (Some ?r2) = Inr (JArray [JBool True, JBool False])"
    using C2_parse_unwraps_single[of ?r2] b2 by simp
  moreover have "parse (Some ?r3) = Inr (JArray [])"
    using C2_parse_unwraps_single[of ?r3] b3 by simp
  ultimately show ?thesis by simp
qed

section \<open>Keys\<close>

text \<open>
  Claim C5, as the code has it. A \<open>key\<close> element with no children builds to the empty
  string, without error. With children it builds to the value of its first child alone,
  whatever follows: the string of a text, CDATA or comment node, and \<open>null\<close> when the
  first child is an element. For a key whose only child is a text node this is the text
  content of the key.
\<close>

theorem C5_key_first_child:
  "parsePlistXML (Element ''key'' []) = Inr (JString [])
   \<and> parsePlistXML (Element ''key'' (Text s # cs)) = Inr (JString s)
   \<and> parsePlistXML (Element ''key'' (CDATASection s # cs)) = Inr (JString s)
   \<and> parsePlistXML (Element ''key'' (Comment s # cs)) = Inr (JString s)
   \<and> parsePlistXML (Element ''key'' (Element nm ds # cs)) = Inr JNull
   \<and> parsePlistXML (Element ''key'' [Text s]) = Inr (JString (text_content [Text s]))"
  by (simp add: parsePlistXML.simps isEmptyNode_def text_content_def)

text \<open>The claim as stated fails for a key with a text node and a CDATA section: the text
  content is \<open>ab\<close>, the key builds to \<open>a\<close>.\<close>

theorem C5_counterexample:
  "parsePlistXML (Element ''key'' [Text ''a'', CDATASection ''b'']) = Inr (JString ''a'')
   \<and> text_content [Text ''a'', CDATASection ''b''] = ''ab''"
  by (simp add: run text_content_def)

section \<open>Arrays and absent values\<close>

text \<open>
  Claim C10. When an \<open>array\<close> node builds, to \<open>res\<close>, every child that is not
  skipped has built, to the values \<open>vs\<close> in document order, and \<open>res\<close> is the array
  of those values that are neither \<open>null\<close> nor \<open>undefined\<close>, in the same order:
  the filter removes nothing else. In particular every \<open>false\<close>, every integer
  \<open>0\<close> and every empty string among \<open>vs\<close> is in the array, at its place relative to
  the others.
\<close>

theorem C10_array_keeps_falsy_values:
  assumes "nodeName node = ''array''"
    and "parsePlistXML node = Inr res"
  shows "\<exists>vs new_arr.
        map parsePlistXML (filter (\<lambda>c. \<not> shouldIgnoreNode c) (childNodes node)) = map Inr vs
      \<and> res = JArray new_arr
      \<and> new_arr = filter (\<lambda>v. v \<noteq> JNull \<and> v \<noteq> JUndefined) vs
      \<and> filter (\<lambda>v. v = JBool False \<or> v = JNumber (NumInt 0) \<or> v = JString []) new_arr
          = filter (\<lambda>v. v = JBool False \<or> v = JNumber (NumInt 0) \<or> v = JString []) vs"
proof -
  have nn: "not_nullish = (\<lambda>v. v \<noteq> JNull \<and> v \<noteq> JUndefined)"
    by (simp add: not_nullish_def fun_eq_iff)
  have keep: "filter (\<lambda>v. v = JBool False \<or> v = JNumber (NumInt 0) \<or> v = JString [])
        (filter (\<lambda>v. v \<noteq> JNull \<and> v \<noteq> JUndefined) vs)
      = filter (\<lambda>v. v = JBool False \<or> v = JNumber (NumInt 0) \<or> v = JString []) vs" for vs
    by (induction vs) auto
  show ?thesis
  proof (cases "childNodes node = []")
    case True
    with assms have "res = JArray []" by (simp add: parsePlistXML.simps isEmptyNode_def)
    with True show ?thesis by simp
  next
    case False
    with assms obtain r where "array_loop (childNodes node) [] = Inr r" "res = JArray r"
      by (auto simp: parsePlistXML.simps isEmptyNode_def split: sum.splits)
    with array_loop_result[of "childNodes node" "[]" r] keep show ?thesis
      by (auto simp: nn)
  qed
qed

text \<open>An array with \<open>false\<close>, \<open>0\<close> and the empty string, a text node that is skipped and
  an unrecognised element that is dropped.\<close>

theorem C10_witness:
  "parsePlistXML (Element ''array''
      [Element ''false'' [], Text '' '', Element ''foo'' [], Element ''integer'' [Text ''0''],
       Element ''string'' [], Element ''true'' []])
     = Inr (JArray [JBool False, JNumber (NumInt 0), JString [], JBool True])
   \<and> map parsePlistXML (filter (\<lambda>c. \<not> shouldIgnoreNode c) (childNodes (Element ''array''
      [Element ''false'' [], Text '' '', Element ''foo'' [], Element ''integer'' [Text ''0''],
       Element ''string'' [], Element ''true'' []])))
     = map Inr [JBool False, JUndefined, JNumber (NumInt 0), JString [], JBool True]"
proof -
  let ?A = "Element ''array''
      [Element ''false'' [], Text '' '', Element ''foo'' [], Element ''integer'' [Text ''0''],
       Element ''string'' [], Element ''true'' []]"
  let ?res = "JArray [JBool False, JNumber (NumInt 0), JString [], JBool True]"
  have h1: "nodeName ?A = ''array''" by simp
  have h2: "parsePlistXML ?A = Inr ?res"
    by (simp add: run num)
  from C10_array_keeps_falsy_values[OF h1 h2] obtain vs
    where vs: "map parsePlistXML (filter (\<lambda>c. \<not> shouldIgnoreNode c) (childNodes ?A)) = map Inr vs"
      and "?res = JArray (filter (\<lambda>v. v \<noteq> JNull \<and> v \<noteq> JUndefined) vs)"
    by blast
  from vs have "vs = [JBool False, JUndefined, JNumber (NumInt 0), JString [], JBool True]"
    by (auto simp: run num Cons_eq_map_conv)
  with vs h2 show ?thesis by simp
qed

text \<open>
  Claim C8 does not hold of the code. An unrecognised element such as \<open>foo\<close> builds to
  \<open>undefined\<close>. The \<open>array\<close> loop drops it, but the \<open>dict\<close> loop stores it under
  its key, so that the document \<open><plist><dict><key>a</key><foo/></dict></plist>\<close> parses
  to an object whose property \<open>a\<close> is \<open>undefined\<close>, and the \<open>plist\<close> loop pushes
  it on the list it returns.
\<close>

theorem C8_absent_value_kept:
  "parse (Some (Element ''plist'' [Element ''dict'' [Element ''key'' [Text ''a''], Element ''foo'' []]]))
     = Inr (JObject [(''a'', JUndefined)])
   \<and> parsePlistXML (Element ''plist'' [Element ''foo'' [], Element ''true'' []])
     = Inr (JArray [JUndefined, JBool True])
   \<and> parsePlistXML (Element ''array'' [Element ''foo'' [], Element ''true'' []])
     = Inr (JArray [JBool True])"
  by (simp add: run parse_def)

section \<open>Integers\<close>

text \<open>
  Claim C7, as the code has it. An \<open>integer\<close> element with a child never fails: it
  builds to the Number that \<open>parseInt\<close> reads from the value of its first child, the
  text itself when that child is a text node. For a text with no decimal digit the Number
  is \<open>NaN\<close>. For a text that starts with decimal digits it is the double nearest to the
  integer of that run of digits, whatever follows them: infinity when the integer is
  beyond the doubles, and the integer itself when it is below \<open>2^53\<close>.
\<close>

theorem C7_integer_never_fails:
  "parsePlistXML (Element ''integer'' (c # cs)) = Inr (JNumber (parseInt (nullable_text (nodeValue c))))
   \<and> parsePlistXML (Element ''integer'' (Text s # cs)) = Inr (JNumber (parseInt s))
   \<and> ((\<forall>x \<in> set s. \<not> is_digit x) \<longrightarrow> parseInt s = NaN)
   \<and> (ds \<noteq> [] \<and> list_all is_digit ds \<and> (r = [] \<or> \<not> is_digit (hd r))
        \<longrightarrow> parseInt (ds @ r) =
            (case to_double (digits_val ds) of None \<Rightarrow> PosInfinity | Some m \<Rightarrow> NumInt (int m)))
   \<and> (n < 2 ^ 53 \<longrightarrow> to_double n = Some n)"
  using parseInt_no_digit[of s] parseInt_digit_prefix[of ds r] to_double_exact[of n]
  by (simp add: parsePlistXML.simps isEmptyNode_def invariant_def)

text \<open>The theorem at the texts \<open>abc\<close>, \<open>12abc\<close> and \<open>9007199254740993\<close>, which is
  \<open>2^53 + 1\<close> and no double.\<close>

theorem C7_witness:
  "parsePlistXML (Element ''integer'' [Text ''abc'']) = Inr (JNumber NaN)
   \<and> parsePlistXML (Element ''integer'' [Text ''12abc'']) = Inr (JNumber (NumInt 12))
   \<and> parsePlistXML (Element ''integer'' [Text ''9007199254740993'']) = Inr (JNumber (NumInt 9007199254740992))"
proof -
  have a: "\<forall>x \<in> set ''abc''. \<not> is_digit x" by (simp add: is_digit_def)
  have b: "''12'' \<noteq> [] \<and> list_all is_digit ''12'' \<and> (''abc'' = [] \<or> \<not> is_digit (hd ''abc''))"
    by (simp add: is_digit_def)
  have c: "''9007199254740993'' \<noteq> [] \<and> list_all is_digit ''9007199254740993''
      \<and> (([] :: string) = [] \<or> \<not> is_digit (hd []))"
    by (simp add: is_digit_def)
  have v: "digits_val ''12'' = 12" by (simp add: digits_val_def)
  have small: "(12 :: nat) < 2 ^ 53" by simp
  have big: "to_double (digits_val ''9007199254740993'') = Some 9007199254740992"
    by (simp add: digits_val_def to_double_def bit_length.simps Let_def)
  from C7_integer_never_fails[of "Text ''abc''" "[]" "''abc''" "''12''" "''abc''" 12] a
  have "parsePlistXML (Element ''integer'' [Text ''abc'']) = Inr (JNumber NaN)" by simp
  moreover
  from C7_integer_never_fails[of "Text ''12abc''" "[]" "''12abc''" "''12''" "''abc''" 12] b small
  have "parsePlistXML (Element ''integer'' [Text ''12abc'']) = Inr (JNumber (NumInt 12))"
    by (simp add: v)
  moreover
  from C7_integer_never_fails[of "Text ''9007199254740993''" "[]" "''9007199254740993''"
      "''9007199254740993''" "[]" 12] c
  have "parsePlistXML (Element ''integer'' [Text ''9007199254740993''])
      = Inr (JNumber (NumInt 9007199254740992))"
    by (simp add: big)
  ultimately show ?thesis by simp
qed

text \<open>The claim as stated fails for the texts \<open>abc\<close> and \<open>12abc\<close>: neither is a
  well-formed integer, and the element builds to \<open>NaN\<close> and to \<open>12\<close>.\<close>

theorem C7_counterexample:
  "\<not> well_formed_int ''abc''
   \<and> parsePlistXML (Element ''integer'' [Text ''abc'']) = Inr (JNumber NaN)
   \<and> \<not> well_formed_int ''12abc''
   \<and> parsePlistXML (Element ''integer'' [Text ''12abc'']) = Inr (JNumber (NumInt 12))"
  by (simp add: run well_formed_int_def num)

section \<open>Data\<close>

text \<open>
  Claim C9, as the code has it. A \<open>data\<close> element builds to the bytes that the
  base64 decoder reads from the values of its text children, concatenated, with all white
  space removed. When that stripped text is what the encoder writes for some byte
  sequence, encoding the returned bytes again gives the stripped text back.
\<close>

theorem C9_data_decodes_stripped_text:
  "parsePlistXML (Element ''data'' cs) = Inr (JBuffer (base64_decode (data_text cs)))
   \<and> (data_text cs \<in> range base64_encode \<longrightarrow>
        (\<exists>bs. parsePlistXML (Element ''data'' cs) = Inr (JBuffer bs) \<and> base64_encode bs = data_text cs))"
proof -
  have "data_text [] = []" by (simp add: data_text_def replace_ws_def)
  then have res: "parsePlistXML (Element ''data'' cs) = Inr (JBuffer (base64_decode (data_text cs)))"
    by (cases cs) (simp_all add: parsePlistXML.simps isEmptyNode_def data_loop_text)
  moreover have "base64_encode (base64_decode (data_text cs)) = data_text cs"
    if "data_text cs \<in> range base64_encode"
    using that by (auto simp: base64_decode_encode)
  ultimately show ?thesis by simp
qed

text \<open>The example of the specification: white space around and inside padded base64.\<close>

theorem C9_witness:
  "parsePlistXML (Element ''data'' [Text ''  aGVs bG8=  '']) = Inr (JBuffer [104, 101, 108, 108, 111])
   \<and> base64_encode [104, 101, 108, 108, 111] = ''aGVsbG8=''
   \<and> data_text [Text ''  aGVs bG8=  ''] = ''aGVsbG8=''"
proof -
  let ?cs = "[Text ''  aGVs bG8=  '']"
  have content: "data_text ?cs = ''aGVsbG8=''" by (simp add: b64)
  have enc: "base64_encode [104, 101, 108, 108, 111] = ''aGVsbG8=''" by code_simp
  have canonical: "data_text ?cs \<in> range base64_encode"
    unfolding content enc[symmetric] by (rule rangeI)
  from C9_data_decodes_stripped_text[of ?cs] canonical obtain bs
    where res: "parsePlistXML (Element ''data'' ?cs) = Inr (JBuffer bs)"
      and reenc: "base64_encode bs = data_text ?cs"
      and dec: "parsePlistXML (Element ''data'' ?cs) = Inr (JBuffer (base64_decode (data_text ?cs)))"
    by blast
  have "base64_decode ''aGVsbG8='' = [104, 101, 108, 108, 111]" by (simp add: b64)
  with dec content have "parsePlistXML (Element ''data'' ?cs) = Inr (JBuffer [104, 101, 108, 108, 111])"
    by simp
  with enc content show ?thesis by simp
qed

text \<open>
  The claim as stated fails for text that the decoder accepts and the encoder does not
  write: without its padding, \<open>aGVsbG8\<close> decodes to the five bytes of \<open>hello\<close>, which
  encode to \<open>aGVsbG8=\<close>. Text in a CDATA section is not read at all.
\<close>

theorem C9_counterexample:
  "parsePlistXML (Element ''data'' [Text ''aGVsbG8'']) = Inr (JBuffer [104, 101, 108, 108, 111])
   \<and> base64_encode [104, 101, 108, 108, 111] = ''aGVsbG8=''
   \<and> data_text [Text ''aGVsbG8''] = ''aGVsbG8''
   \<and> parsePlistXML (Element ''data'' [CDATASection ''aGk='']) = Inr (JBuffer [])"
proof -
  have "parsePlistXML (Element ''data'' [Text ''aGVsbG8'']) = Inr (JBuffer [104, 101, 108, 108, 111])"
    by (simp add: run b64)
  moreover have "base64_encode [104, 101, 108, 108, 111] = ''aGVsbG8=''" by code_simp
  moreover have "data_text [Text ''aGVsbG8''] = ''aGVsbG8''" by (simp add: b64)
  moreover have "parsePlistXML (Element ''data'' [CDATASection ''aGk='']) = Inr (JBuffer [])"
    by (simp add: run b64)
  ultimately show ?thesis by simp
qed

end
